theory Spec2Isabelle
  imports
    Main
    "HOL-Library.Word"
    "HOL-Library.Multiset"
    "HOL-Library.List_Lexorder"
    "HOL-Library.Char_ord"
begin

section \<open>Policy canonicalisation (package hasher): the code\<close>

subsection \<open>Data model\<close>

text \<open>
  The structs of package \<open>common\<close> are used by \<open>pkg/util/policy/hasher/types.go\<close> but
  declared in a file that is not part of the sources at hand.  Their fields are listed in the
  data model of the specification and typed as the hasher reads them: the verbs of the
  format strings give the kind of every field (\<open>%s\<close> a string, \<open>%d\<close> an integer,
  \<open>%t\<close> a bool), \<open>tid\<close> and \<open>sid\<close> are declared \<open>uint64\<close> and receive the
  dereferenced network ids, and the conversion \<open>UintSlice(sorted.Ports)\<close> fixes
  \<open>Ports\<close> to \<open>[]uint\<close>.  Go's \<open>uint\<close> and \<open>uint64\<close> are 64-bit words here
  (a 64-bit target).  A Go string is a byte sequence, compared bytewise, which is the
  lexicographic order of \<open>char list\<close>.  A slice is a list; a nil slice and an empty one
  are both \<open>[]\<close>.
\<close>

type_synonym uint = "64 word"

text \<open>
  Modelled from the spec: \<open>common.PortRange\<close>, a \<open>[low, high]\<close> pair.  The hasher indexes
  it with \<open>[0]\<close> and \<open>[1]\<close> and prints both cells with \<open>%d\<close>; the cells are port
  numbers like the elements of \<open>Ports\<close>, hence \<open>uint\<close>: the type is the array
  \<open>[2]uint\<close>, read as the pair of its two cells.
\<close>

type_synonym PortRange = "uint \<times> uint"

text \<open>
  Modelled from the spec: \<open>common.Endpoint\<close>, a union of selectors; the two network ids
  are optional (a nil pointer is \<open>None\<close>).
\<close>

record Endpoint =
  Peer :: string
  Cidr :: string
  Dest :: string
  TenantID :: uint
  TenantName :: string
  TenantExternalID :: string
  TenantNetworkID :: "uint option"
  SegmentID :: uint
  SegmentName :: string
  SegmentExternalID :: string
  SegmentNetworkID :: "uint option"

text \<open>Modelled from the spec: \<open>common.Rule\<close>, the protocol and port constraints.\<close>

record Rule =
  Protocol :: string
  Ports :: "uint list"
  PortRanges :: "PortRange list"
  IcmpType :: uint
  IcmpCode :: uint
  IsStateful :: bool

text \<open>Modelled from the spec: \<open>common.RomanaIngress\<close>, the peers and the rules of one entry.\<close>

record RomanaIngress =
  Peers :: "Endpoint list"
  Rules :: "Rule list"

text \<open>
  Modelled from the spec: \<open>common.Policy\<close>, with the five scalar fields that
  \<open>PolicyToCanonical\<close> copies and the two collections it rebuilds.
\<close>

record Policy =
  Direction :: string
  Description :: string
  Name :: string
  ID :: uint
  ExternalID :: string
  AppliedTo :: "Endpoint list"
  Ingress :: "RomanaIngress list"

subsection \<open>The library routines the hasher calls\<close>

text \<open>
  \<open>sort.Sort\<close> belongs to Go's standard library.  On a slice of at most 6 elements
  every release of the library runs its insertion sort alone (the releases since 1.19 do so
  up to 12 elements),
  \<^verbatim>\<open>for i := a + 1; i < b; i++ { for j := i; j > a && data.Less(j, j-1); j-- { data.Swap(j, j-1) } }\<close>
  \<open>sift lt x left\<close> is the inner loop: \<open>left\<close> is the part of the slice to the left of
  \<open>x\<close>, nearest neighbour first, and \<open>x\<close> moves left as long as it is less than its
  neighbour.
\<close>

fun sift :: "('a \<Rightarrow> 'a \<Rightarrow> bool) \<Rightarrow> 'a \<Rightarrow> 'a list \<Rightarrow> 'a list" where
  "sift lt x [] = [x]"
| "sift lt x (y # left) = (if lt x y then y # sift lt x left else x # y # left)"

definition insertionSort :: "('a \<Rightarrow> 'a \<Rightarrow> bool) \<Rightarrow> 'a list \<Rightarrow> 'a list" where
  "insertionSort lt xs = rev (foldl (\<lambda>left x. sift lt x left) [] xs)"

text \<open>
  On a longer slice the library partitions the data first (quicksort with a heapsort
  fallback, a pattern-defeating quicksort since 1.19).  Its documentation promises the
  result only: the elements of the slice, in ascending order as determined by \<open>Less\<close>,
  and no stability.  Neither the routine nor the release in use is part of the sources, so
  the order it gives to elements that \<open>Less\<close> does not separate is not fixed here:
  \<open>sort_long\<close> is some function with the documented result, wherever such a result
  exists.
\<close>

definition sort_result :: "('a \<Rightarrow> 'a \<Rightarrow> bool) \<Rightarrow> 'a list \<Rightarrow> 'a list \<Rightarrow> bool" where
  "sort_result lt xs ys \<longleftrightarrow> mset ys = mset xs \<and> sorted_wrt (\<lambda>a b. \<not> lt b a) ys"

definition sort_long :: "('a \<Rightarrow> 'a \<Rightarrow> bool) \<Rightarrow> 'a list \<Rightarrow> 'a list" where
  "sort_long =
     (SOME f. \<forall>lt xs. (\<exists>ys. sort_result lt xs ys) \<longrightarrow> sort_result lt xs (f lt xs))"

definition sort_Sort :: "('a \<Rightarrow> 'a \<Rightarrow> bool) \<Rightarrow> 'a list \<Rightarrow> 'a list" where
  "sort_Sort lt xs = (if length xs \<le> 6 then insertionSort lt xs else sort_long lt xs)"

text \<open>The verbs \<open>%d\<close> (of an unsigned integer) and \<open>%t\<close> of \<open>fmt.Sprintf\<close>.\<close>

definition digit :: "nat \<Rightarrow> char" where
  "digit n = ''0123456789'' ! n"

fun decimal :: "nat \<Rightarrow> string" where
  "decimal n = (if n < 10 then [digit n] else decimal (n div 10) @ [digit (n mod 10)])"

declare decimal.simps [simp del]

definition fmt_d :: "uint \<Rightarrow> string" where
  "fmt_d w = decimal (unat w)"

definition fmt_t :: "bool \<Rightarrow> string" where
  "fmt_t b = (if b then ''true'' else ''false'')"

subsection \<open>Endpoints\<close>

definition EndpointToString :: "Endpoint \<Rightarrow> string" where
  "EndpointToString e =
     (let tid = (case TenantNetworkID e of None \<Rightarrow> 0 | Some v \<Rightarrow> v);
          sid = (case SegmentNetworkID e of None \<Rightarrow> 0 | Some v \<Rightarrow> v)
      in Peer e @ Cidr e @ Dest e @ fmt_d (TenantID e) @ TenantName e @ TenantExternalID e
         @ fmt_d tid @ fmt_d (SegmentID e) @ SegmentName e @ SegmentExternalID e @ fmt_d sid)"

record EndpointSortGroup =
  endpoint :: Endpoint
  key :: string

definition NewEndpointList :: "Endpoint list \<Rightarrow> EndpointSortGroup list" where
  "NewEndpointList endpoints = map (\<lambda>e. \<lparr>endpoint = e, key = EndpointToString e\<rparr>) endpoints"

definition EndpointList_Less :: "EndpointSortGroup \<Rightarrow> EndpointSortGroup \<Rightarrow> bool" where
  "EndpointList_Less a b \<longleftrightarrow> key a < key b"

definition EndpointList_Sort :: "EndpointSortGroup list \<Rightarrow> EndpointSortGroup list" where
  "EndpointList_Sort items = sort_Sort EndpointList_Less items"

definition EndpointList_List :: "EndpointSortGroup list \<Rightarrow> Endpoint list" where
  "EndpointList_List items = map endpoint items"

subsection \<open>Rules\<close>

definition UintSlice_Less :: "uint \<Rightarrow> uint \<Rightarrow> bool" where
  "UintSlice_Less a b \<longleftrightarrow> a < b"

text \<open>\<open>p[i][0]-p[i][1]\<close> is a subtraction of \<open>uint\<close>: it wraps around.\<close>

definition PortRange_diff :: "PortRange \<Rightarrow> uint" where
  "PortRange_diff r = fst r - snd r"

definition PortRangeSlice_Less :: "PortRange \<Rightarrow> PortRange \<Rightarrow> bool" where
  "PortRangeSlice_Less a b \<longleftrightarrow> fst a - snd a < fst b - snd b"

definition RuleToCanonical :: "Rule \<Rightarrow> Rule" where
  "RuleToCanonical unsorted =
     unsorted \<lparr> Ports := sort_Sort UintSlice_Less (Ports unsorted),
                PortRanges := sort_Sort PortRangeSlice_Less (PortRanges unsorted) \<rparr>"

definition RuleToString :: "Rule \<Rightarrow> string" where
  "RuleToString rule =
     (let newRule = RuleToCanonical rule
      in Protocol rule
         @ concat (map fmt_d (Ports newRule))
         @ concat (map (\<lambda>p. fmt_d (fst p) @ fmt_d (snd p)) (PortRanges newRule))
         @ fmt_d (IcmpType newRule) @ fmt_d (IcmpCode newRule) @ fmt_t (IsStateful newRule))"

definition RuleSlice_Less :: "Rule \<Rightarrow> Rule \<Rightarrow> bool" where
  "RuleSlice_Less a b \<longleftrightarrow> RuleToString a < RuleToString b"

definition RulesToCanonical :: "Rule list \<Rightarrow> Rule list" where
  "RulesToCanonical unsorted = sort_Sort RuleSlice_Less (map RuleToCanonical unsorted)"

subsection \<open>Ingress entries and policies\<close>

definition IngressToCanonical :: "RomanaIngress \<Rightarrow> RomanaIngress" where
  "IngressToCanonical unsorted =
     \<lparr> Peers = EndpointList_List (EndpointList_Sort (NewEndpointList (Peers unsorted))),
       Rules = map RuleToCanonical (Rules unsorted) \<rparr>"

definition PolicyToCanonical :: "Policy \<Rightarrow> Policy" where
  "PolicyToCanonical unsorted =
     \<lparr> Direction = Direction unsorted,
       Description = Description unsorted,
       Name = Name unsorted,
       ID = ID unsorted,
       ExternalID = ExternalID unsorted,
       AppliedTo = EndpointList_List (EndpointList_Sort (NewEndpointList (AppliedTo unsorted))),
       Ingress = map IngressToCanonical (Ingress unsorted) \<rparr>"


section \<open>The same code over a store of backing arrays\<close>

text \<open>
  A Go slice is a view of a backing array, and \<open>sort.Sort\<close> swaps the cells of that array
  in place.  \<open>sorted := unsorted\<close> in \<open>RuleToCanonical\<close> copies the struct, that is the two
  slice headers, not the arrays: \<open>sorted.Ports\<close> and \<open>unsorted.Ports\<close> are views of one
  array, and so are the rule of the caller and the loop variables \<open>ingress\<close> and \<open>rule\<close>
  of \<open>PolicyToCanonical\<close> and \<open>IngressToCanonical\<close>.  To follow the writes, the arrays
  behind \<open>Ports\<close> and \<open>PortRanges\<close> live in a store, addressed by numbers, and a rule
  holds the two addresses (a slice spans its whole array).  The other slices are only read:
  \<open>NewEndpointList\<close> appends the endpoints to a slice of its own before sorting, and the
  \<open>Ingress\<close> and \<open>Rules\<close> slices are ranged over; they stay lists.
\<close>

record store =
  port_arrays :: "nat \<Rightarrow> uint list"
  range_arrays :: "nat \<Rightarrow> PortRange list"

record Rule_st =
  Protocol_st :: string
  Ports_st :: nat
  PortRanges_st :: nat
  IcmpType_st :: uint
  IcmpCode_st :: uint
  IsStateful_st :: bool

record RomanaIngress_st =
  Peers_st :: "Endpoint list"
  Rules_st :: "Rule_st list"

record Policy_st =
  Direction_st :: string
  Description_st :: string
  Name_st :: string
  ID_st :: uint
  ExternalID_st :: string
  AppliedTo_st :: "Endpoint list"
  Ingress_st :: "RomanaIngress_st list"

text \<open>\<open>sort.Sort(ports)\<close> and \<open>sort.Sort(ranges)\<close>: the array at the address is rewritten.\<close>

definition sort_Sort_ports :: "store \<Rightarrow> nat \<Rightarrow> store" where
  "sort_Sort_ports s a =
     s \<lparr> port_arrays := (port_arrays s) (a := sort_Sort UintSlice_Less (port_arrays s a)) \<rparr>"

definition sort_Sort_ranges :: "store \<Rightarrow> nat \<Rightarrow> store" where
  "sort_Sort_ranges s a =
     s \<lparr> range_arrays :=
           (range_arrays s) (a := sort_Sort PortRangeSlice_Less (range_arrays s a)) \<rparr>"

definition RuleToCanonical_st :: "store \<Rightarrow> Rule_st \<Rightarrow> store \<times> Rule_st" where
  "RuleToCanonical_st s unsorted =
     (let sorted = unsorted;
          ports = Ports_st sorted;
          s1 = sort_Sort_ports s ports;
          sorted = sorted \<lparr> Ports_st := ports \<rparr>;
          ranges = PortRanges_st sorted;
          s2 = sort_Sort_ranges s1 ranges;
          sorted = sorted \<lparr> PortRanges_st := ranges \<rparr>
      in (s2, sorted))"

fun Rules_loop_st :: "store \<Rightarrow> Rule_st list \<Rightarrow> store \<times> Rule_st list" where
  "Rules_loop_st s [] = (s, [])"
| "Rules_loop_st s (rule # rest) =
     (let (s1, r) = RuleToCanonical_st s rule;
          (s2, rs) = Rules_loop_st s1 rest
      in (s2, r # rs))"

definition IngressToCanonical_st ::
    "store \<Rightarrow> RomanaIngress_st \<Rightarrow> store \<times> RomanaIngress_st" where
  "IngressToCanonical_st s unsorted =
     (let peers = EndpointList_List (EndpointList_Sort (NewEndpointList (Peers_st unsorted)));
          (s1, rules) = Rules_loop_st s (Rules_st unsorted)
      in (s1, \<lparr> Peers_st = peers, Rules_st = rules \<rparr>))"

fun Ingress_loop_st :: "store \<Rightarrow> RomanaIngress_st list \<Rightarrow> store \<times> RomanaIngress_st list" where
  "Ingress_loop_st s [] = (s, [])"
| "Ingress_loop_st s (ingress # rest) =
     (let (s1, i) = IngressToCanonical_st s ingress;
          (s2, is) = Ingress_loop_st s1 rest
      in (s2, i # is))"

definition PolicyToCanonical_st :: "store \<Rightarrow> Policy_st \<Rightarrow> store \<times> Policy_st" where
  "PolicyToCanonical_st s unsorted =
     (let applied = EndpointList_List (EndpointList_Sort (NewEndpointList (AppliedTo_st unsorted)));
          (s1, ingress) = Ingress_loop_st s (Ingress_st unsorted)
      in (s1, \<lparr> Direction_st = Direction_st unsorted,
                Description_st = Description_st unsorted,
                Name_st = Name_st unsorted,
                ID_st = ID_st unsorted,
                ExternalID_st = ExternalID_st unsorted,
                AppliedTo_st = applied,
                Ingress_st = ingress \<rparr>))"

text \<open>The value a struct denotes in a store: every slice replaced by its contents.\<close>

definition read_Rule :: "store \<Rightarrow> Rule_st \<Rightarrow> Rule" where
  "read_Rule s r = \<lparr> Protocol = Protocol_st r, Ports = port_arrays s (Ports_st r),
     PortRanges = range_arrays s (PortRanges_st r), IcmpType = IcmpType_st r,
     IcmpCode = IcmpCode_st r, IsStateful = IsStateful_st r \<rparr>"

definition read_RomanaIngress :: "store \<Rightarrow> RomanaIngress_st \<Rightarrow> RomanaIngress" where
  "read_RomanaIngress s i = \<lparr> Peers = Peers_st i, Rules = map (read_Rule s) (Rules_st i) \<rparr>"

definition read_Policy :: "store \<Rightarrow> Policy_st \<Rightarrow> Policy" where
  "read_Policy s p = \<lparr> Direction = Direction_st p, Description = Description_st p,
     Name = Name_st p, ID = ID_st p, ExternalID = ExternalID_st p,
     AppliedTo = AppliedTo_st p, Ingress = map (read_RomanaIngress s) (Ingress_st p) \<rparr>"

text \<open>
  The arrays at the addresses in \<open>A\<close> (ports) and \<open>B\<close> (ranges) of \<open>s'\<close> hold the sorted
  contents of those of \<open>s\<close>, all others are as in \<open>s\<close>.
\<close>

definition sorted_from :: "store \<Rightarrow> nat set \<Rightarrow> nat set \<Rightarrow> store \<Rightarrow> bool" where
  "sorted_from s A B s' \<longleftrightarrow>
     port_arrays s' = (\<lambda>a. if a \<in> A then sort_Sort UintSlice_Less (port_arrays s a)
                             else port_arrays s a)
     \<and> range_arrays s' = (\<lambda>a. if a \<in> B then sort_Sort PortRangeSlice_Less (range_arrays s a)
                               else range_arrays s a)"

text \<open>
  Two rules may hold the same array, which is then sorted twice.  \<open>resorted s a\<close>: sorting
  the range array at \<open>a\<close> a second time changes nothing.  \<open>sort_once s B as\<close>: of the range
  arrays at the addresses \<open>as\<close>, sorted in this order after those at \<open>B\<close>, every one that
  is sorted again is of that kind.
\<close>

definition resorted :: "store \<Rightarrow> nat \<Rightarrow> bool" where
  "resorted s a \<longleftrightarrow>
     sort_Sort PortRangeSlice_Less (sort_Sort PortRangeSlice_Less (range_arrays s a))
       = sort_Sort PortRangeSlice_Less (range_arrays s a)"

fun sort_once :: "store \<Rightarrow> nat set \<Rightarrow> nat list \<Rightarrow> bool" where
  "sort_once s B [] = True"
| "sort_once s B (a # as) = ((a \<in> B \<longrightarrow> resorted s a) \<and> sort_once s (insert a B) as)"

definition rule_ranges_list :: "Rule_st list \<Rightarrow> nat list" where
  "rule_ranges_list rs = map PortRanges_st rs"

definition ingress_ranges_list :: "RomanaIngress_st list \<Rightarrow> nat list" where
  "ingress_ranges_list is = concat (map (\<lambda>i. rule_ranges_list (Rules_st i)) is)"

definition rule_ports :: "Rule_st list \<Rightarrow> nat set" where
  "rule_ports rs = Ports_st ` set rs"

definition rule_ranges :: "Rule_st list \<Rightarrow> nat set" where
  "rule_ranges rs = PortRanges_st ` set rs"

definition ingress_ports :: "RomanaIngress_st list \<Rightarrow> nat set" where
  "ingress_ports is = (\<Union>i\<in>set is. rule_ports (Rules_st i))"

definition ingress_ranges :: "RomanaIngress_st list \<Rightarrow> nat set" where
  "ingress_ranges is = (\<Union>i\<in>set is. rule_ranges (Rules_st i))"

section \<open>Chain lifecycle (package firewall)\<close>

text \<open>
  Of package \<open>firewall\<close> the sources hold the tests only (\<open>firewall_test.go\<close>); the
  functions under test are modelled from the specification of the chain lifecycle manager,
  with the command lines the tests expect.  (The tests of package \<open>agent\<close> are those of an
  older version with other chain names: its traffic diversion issues \<open>-C\<close> then \<open>-A\<close>
  as well, its \<open>CreateChains\<close> and \<open>CreateRules\<close> issue \<open>-N\<close> and \<open>-A\<close> without a
  query.)
\<close>

text \<open>
  Modelled from the spec: the argument vector handed to \<open>Executor.Exec\<close> after the program
  name \<open>iptablesCmd\<close>: an optional \<open>-w\<close>, the operation (\<open>-L\<close> and \<open>-C\<close> query the
  host, \<open>-N\<close>, \<open>-A\<close> and \<open>-D\<close> create, append and delete) and its arguments.
\<close>

datatype operation = ListChain | NewChain | CheckRule | AppendRule | DeleteRule

record command =
  wait :: bool
  operation :: operation
  args :: "string list"

text \<open>Modelled from the spec: the option that selects the operation.\<close>

fun flag :: "operation \<Rightarrow> string" where
  "flag ListChain = ''-L''"
| "flag NewChain = ''-N''"
| "flag CheckRule = ''-C''"
| "flag AppendRule = ''-A''"
| "flag DeleteRule = ''-D''"

text \<open>Modelled from the spec: the command line as \<open>FakeExecutor.Commands\<close> records it.\<close>

definition argv :: "command \<Rightarrow> string list" where
  "argv c = (if wait c then [''-w''] else []) @ [flag (operation c)] @ args c"

text \<open>Modelled from the spec: a query (check or list) command.\<close>

definition query :: "command \<Rightarrow> bool" where
  "query c \<longleftrightarrow> operation c = ListChain \<or> operation c = CheckRule"

text \<open>Modelled from the spec: a mutating (create, append or delete) command.\<close>

definition mutating :: "command \<Rightarrow> bool" where
  "mutating c \<longleftrightarrow> operation c = NewChain \<or> operation c = AppendRule \<or> operation c = DeleteRule"

text \<open>
  Modelled from the spec: the collaborator \<open>Executor.Exec(argv) (stdout, err)\<close>, a
  synchronous process invocation.  \<open>FakeExecutor\<close> is the executor of the tests: it answers
  every command with its fixed output and error.
\<close>

type_synonym executor = "command \<Rightarrow> string \<times> string option"

text \<open>
  Modelled from the spec: the executor of the tests, \<open>FakeExecutor{Output, Error}\<close>.
\<close>

definition FakeExecutor :: "string \<Rightarrow> string option \<Rightarrow> executor" where
  "FakeExecutor output err = (\<lambda>c. (output, err))"

text \<open>
  Modelled from the spec: one call of the executor; the command is appended to the log and
  the error of the call is returned.
\<close>

definition Exec :: "executor \<Rightarrow> command \<Rightarrow> command list \<Rightarrow> string option \<times> command list" where
  "Exec ex c log = (snd (ex c), log @ [c])"

text \<open>
  Modelled from the spec: a chain of the compiled model, with the built-in chain that
  traffic is diverted from (\<open>INPUT\<close>) and its own name (\<open>ROMANA-INPUT\<close>).
\<close>

record chain =
  base_chain :: string
  chain_name :: string

text \<open>Modelled from the spec: the query \<open>-w -L chain\<close>.\<close>

definition list_cmd :: "string \<Rightarrow> command" where
  "list_cmd name = \<lparr> wait = True, operation = ListChain, args = [name] \<rparr>"

text \<open>Modelled from the spec: the creation \<open>-w -N chain\<close>.\<close>

definition new_cmd :: "string \<Rightarrow> command" where
  "new_cmd name = \<lparr> wait = True, operation = NewChain, args = [name] \<rparr>"

text \<open>Modelled from the spec: the query \<open>-w -C rule\<close>.\<close>

definition check_cmd :: "string list \<Rightarrow> command" where
  "check_cmd rule = \<lparr> wait = True, operation = CheckRule, args = rule \<rparr>"

text \<open>Modelled from the spec: the installation \<open>-A rule\<close>.\<close>

definition append_cmd :: "string list \<Rightarrow> command" where
  "append_cmd rule = \<lparr> wait = False, operation = AppendRule, args = rule \<rparr>"

text \<open>
  Modelled from the spec: the existence query of a chain ("check exists"); an error of the
  query reads as "not present".
\<close>

definition isChainExist :: "executor \<Rightarrow> string \<Rightarrow> command list \<Rightarrow> bool \<times> command list" where
  "isChainExist ex name log =
     (let (err, log1) = Exec ex (list_cmd name) log in (err = None, log1))"

text \<open>
  Modelled from the spec: the transition \<open>Absent \<rightarrow> Created\<close>, an "ensure" operation: query
  first, create only if the query does not report the chain.
\<close>

definition ensureChain :: "executor \<Rightarrow> string \<Rightarrow> command list \<Rightarrow> command list" where
  "ensureChain ex name log =
     (let (present, log1) = isChainExist ex name log
      in if present then log1 else snd (Exec ex (new_cmd name) log1))"

text \<open>Modelled from the spec: \<open>CreateChains\<close>, the ensure operation for every chain in turn.\<close>

definition CreateChains :: "executor \<Rightarrow> chain list \<Rightarrow> command list \<Rightarrow> command list" where
  "CreateChains ex chs log = fold (\<lambda>c. ensureChain ex (chain_name c)) chs log"

text \<open>Modelled from the spec: the existence query of a rule (\<open>-C\<close>).\<close>

definition isRuleExist :: "executor \<Rightarrow> string list \<Rightarrow> command list \<Rightarrow> bool \<times> command list" where
  "isRuleExist ex rule log =
     (let (err, log1) = Exec ex (check_cmd rule) log in (err = None, log1))"

text \<open>
  Modelled from the spec: \<open>EnsureRule\<close>, the ensure operation for a rule: query first, append
  only if the query does not report the rule; a query error is treated as "not present".
\<close>

definition EnsureRule :: "executor \<Rightarrow> string list \<Rightarrow> command list \<Rightarrow> command list" where
  "EnsureRule ex rule log =
     (let (present, log1) = isRuleExist ex rule log
      in if present then log1 else snd (Exec ex (append_cmd rule) log1))"

text \<open>
  Modelled from the spec: the diversion rule, the jump from the built-in chain into the
  Romana chain for the interface of the endpoint.
\<close>

definition divert_rule :: "string \<Rightarrow> chain \<Rightarrow> string list" where
  "divert_rule iface c = [base_chain c, ''-i'', iface, ''-j'', chain_name c]"

text \<open>
  Modelled from the spec: \<open>DivertTrafficToRomanaIPtablesChain\<close> with the operation
  \<open>installDivertRules\<close>, the transition \<open>Created \<rightarrow> Diverted\<close>: the ensure operation
  for the diversion rule.
\<close>

definition DivertTrafficToRomanaIPtablesChain ::
    "executor \<Rightarrow> string \<Rightarrow> chain \<Rightarrow> command list \<Rightarrow> command list" where
  "DivertTrafficToRomanaIPtablesChain ex iface c log = EnsureRule ex (divert_rule iface c) log"

text \<open>Modelled from the spec: \<open>CreateDefaultRule\<close>, the transition to \<open>DefaultInstalled\<close>.\<close>

definition CreateDefaultRule ::
    "executor \<Rightarrow> chain \<Rightarrow> string \<Rightarrow> command list \<Rightarrow> command list" where
  "CreateDefaultRule ex c target log = EnsureRule ex [chain_name c, ''-j'', target] log"

text \<open>Modelled from the spec: \<open>CreateRules\<close>, the transition to \<open>Populated\<close>, rule by rule.\<close>

definition CreateRules :: "executor \<Rightarrow> string list list \<Rightarrow> command list \<Rightarrow> command list" where
  "CreateRules ex rules log = fold (EnsureRule ex) rules log"

text \<open>
  Modelled from the spec: the bit-match rule, a raw extended-match expression over two
  masked byte ranges of the packet.
\<close>

definition u32_rule :: "chain \<Rightarrow> string \<Rightarrow> string list" where
  "u32_rule c u32filter = [chain_name c, ''-m'', ''u32'', ''--u32'', u32filter, ''-j'', ''ACCEPT'']"

text \<open>
  Modelled from the spec: \<open>CreateU32Rules\<close>, the transition "append bit-match rules" to
  \<open>Ready\<close>: like every transition of the lifecycle an ensure operation, which queries
  first and appends the rule only if the query does not report it.
\<close>

definition CreateU32Rules :: "executor \<Rightarrow> chain \<Rightarrow> string \<Rightarrow> command list \<Rightarrow> command list" where
  "CreateU32Rules ex c u32filter log = EnsureRule ex (u32_rule c u32filter) log"

text \<open>Modelled from the spec: the error taxonomy of the core.\<close>

datatype error = ValidationError | ResolutionError | ExecutionError | PartialBatchError

text \<open>Modelled from the spec: the substring match against a rendered rule.\<close>

fun contains :: "string \<Rightarrow> string \<Rightarrow> bool" where
  "contains sub [] = (sub = [])"
| "contains sub (c # cs) = (take (length sub) (c # cs) = sub \<or> contains sub cs)"

text \<open>
  Modelled from the spec: \<open>deleteIPtablesRulesBySubstring\<close>, the bulk deletion by substring
  match against the rendered rule text.  The state is the list of rendered rules together
  with the command log.  An empty substring is rejected outright, before any side effect;
  otherwise every rule whose text contains the substring is deleted.
\<close>

definition deleteIPtablesRulesBySubstring ::
    "executor \<Rightarrow> string \<Rightarrow> string list \<times> command list
       \<Rightarrow> error option \<times> string list \<times> command list" where
  "deleteIPtablesRulesBySubstring ex substring st =
     (if substring = [] then (Some ValidationError, st)
      else (None, filter (\<lambda>r. \<not> contains substring r) (fst st),
            fold (\<lambda>r log. snd (Exec ex \<lparr> wait = True, operation = DeleteRule, args = [r] \<rparr> log))
              (filter (contains substring) (fst st)) (snd st)))"

section \<open>Notions used in the statements\<close>

text \<open>
  Two rules, ingress entries or policies have the same content when they agree up to the
  order inside \<open>Ports\<close>, \<open>PortRanges\<close>, \<open>Peers\<close> and \<open>AppliedTo\<close>; the ingress entries
  and the rules correspond position by position.
\<close>

definition same_rule_content :: "Rule \<Rightarrow> Rule \<Rightarrow> bool" where
  "same_rule_content r s \<longleftrightarrow>
     Protocol r = Protocol s \<and> mset (Ports r) = mset (Ports s)
     \<and> mset (PortRanges r) = mset (PortRanges s)
     \<and> IcmpType r = IcmpType s \<and> IcmpCode r = IcmpCode s \<and> IsStateful r = IsStateful s"

definition same_ingress_content :: "RomanaIngress \<Rightarrow> RomanaIngress \<Rightarrow> bool" where
  "same_ingress_content i j \<longleftrightarrow>
     mset (Peers i) = mset (Peers j) \<and> list_all2 same_rule_content (Rules i) (Rules j)"

definition same_policy_content :: "Policy \<Rightarrow> Policy \<Rightarrow> bool" where
  "same_policy_content p q \<longleftrightarrow>
     Direction p = Direction q \<and> Description p = Description q \<and> Name p = Name q
     \<and> ID p = ID q \<and> ExternalID p = ExternalID q
     \<and> mset (AppliedTo p) = mset (AppliedTo q)
     \<and> list_all2 same_ingress_content (Ingress p) (Ingress q)"

text \<open>No two members of a sorted collection share their sort key.\<close>

definition distinct_range_keys :: "Rule \<Rightarrow> bool" where
  "distinct_range_keys r \<longleftrightarrow> inj_on PortRange_diff (set (PortRanges r))"

definition distinct_keys_ingress :: "RomanaIngress \<Rightarrow> bool" where
  "distinct_keys_ingress i \<longleftrightarrow>
     inj_on EndpointToString (set (Peers i)) \<and> list_all distinct_range_keys (Rules i)"

definition distinct_keys :: "Policy \<Rightarrow> bool" where
  "distinct_keys p \<longleftrightarrow>
     inj_on EndpointToString (set (AppliedTo p)) \<and> list_all distinct_keys_ingress (Ingress p)"

text \<open>Equality of the fields of two endpoints, an absent network id read as zero.\<close>

definition network_id_value :: "uint option \<Rightarrow> uint" where
  "network_id_value x = (case x of None \<Rightarrow> 0 | Some v \<Rightarrow> v)"

definition same_endpoint_fields :: "Endpoint \<Rightarrow> Endpoint \<Rightarrow> bool" where
  "same_endpoint_fields a b \<longleftrightarrow>
     Peer a = Peer b \<and> Cidr a = Cidr b \<and> Dest a = Dest b \<and> TenantID a = TenantID b
     \<and> TenantName a = TenantName b \<and> TenantExternalID a = TenantExternalID b
     \<and> network_id_value (TenantNetworkID a) = network_id_value (TenantNetworkID b)
     \<and> SegmentID a = SegmentID b \<and> SegmentName a = SegmentName b
     \<and> SegmentExternalID a = SegmentExternalID b
     \<and> network_id_value (SegmentNetworkID a) = network_id_value (SegmentNetworkID b)"

section \<open>Concrete inputs\<close>

text \<open>The zero values of the Go structs.\<close>

definition Endpoint0 :: Endpoint where
  "Endpoint0 = \<lparr> Peer = [], Cidr = [], Dest = [], TenantID = 0, TenantName = [],
     TenantExternalID = [], TenantNetworkID = None, SegmentID = 0, SegmentName = [],
     SegmentExternalID = [], SegmentNetworkID = None \<rparr>"

definition Rule0 :: Rule where
  "Rule0 = \<lparr> Protocol = [], Ports = [], PortRanges = [], IcmpType = 0, IcmpCode = 0,
     IsStateful = False \<rparr>"

definition Policy0 :: Policy where
  "Policy0 = \<lparr> Direction = [], Description = [], Name = [], ID = 0, ExternalID = [],
     AppliedTo = [], Ingress = [] \<rparr>"

definition cidr_endpoint :: "string \<Rightarrow> Endpoint" where
  "cidr_endpoint c = Endpoint0 \<lparr> Cidr := c \<rparr>"

definition ranges_policy :: "PortRange list \<Rightarrow> Policy" where
  "ranges_policy rs =
     Policy0 \<lparr> Ingress := [\<lparr> Peers = [], Rules = [Rule0 \<lparr> PortRanges := rs \<rparr>] \<rparr>] \<rparr>"

definition rules_policy :: "Rule list \<Rightarrow> Policy" where
  "rules_policy rs = Policy0 \<lparr> Ingress := [\<lparr> Peers = [], Rules = rs \<rparr>] \<rparr>"

definition sample_policy :: "Endpoint list \<Rightarrow> uint list \<Rightarrow> PortRange list \<Rightarrow> Policy" where
  "sample_policy es ps rs =
     Policy0 \<lparr> AppliedTo := es,
               Ingress := [\<lparr> Peers = es, Rules = [Rule0 \<lparr> Ports := ps, PortRanges := rs \<rparr>] \<rparr>] \<rparr>"

text \<open>The rule of scenario C, \<open>Rule{Protocol:"TCP", Ports:[99,80,8080]}\<close>.\<close>

definition scenario_C_rule :: Rule where
  "scenario_C_rule = Rule0 \<lparr> Protocol := ''TCP'', Ports := [99, 80, 8080] \<rparr>"

text \<open>A policy with that rule, its ports in the array at address 1 of the store.\<close>

definition scenario_store :: store where
  "scenario_store = \<lparr> port_arrays = (\<lambda>a. []) (1 := [99, 80, 8080]), range_arrays = (\<lambda>a. []) \<rparr>"

definition scenario_policy_st :: Policy_st where
  "scenario_policy_st = \<lparr> Direction_st = ''ingress'', Description_st = [], Name_st = ''p'',
     ID_st = 0, ExternalID_st = [], AppliedTo_st = [],
     Ingress_st = [\<lparr> Peers_st = [], Rules_st = [\<lparr> Protocol_st = ''TCP'', Ports_st = 1,
       PortRanges_st = 0, IcmpType_st = 0, IcmpCode_st = 0, IsStateful_st = False \<rparr>] \<rparr>] \<rparr>"

text \<open>The chain, interface, rule and filter of the tests of package \<open>firewall\<close>.\<close>

definition input_chain :: chain where
  "input_chain = \<lparr> base_chain = ''INPUT'', chain_name = ''ROMANA-INPUT'' \<rparr>"

definition test_rule :: "string list" where
  "test_rule = [''ROMANA-INPUT'', ''-d'', ''255.255.255.255/32'', ''-p'', ''udp'',
                ''-m'', ''udp'', ''--sport'', ''68'', ''--dport'', ''67'', ''-j'', ''ACCEPT'']"



section \<open>Proofs\<close>

subsection \<open>The sort of the library\<close>

lemma set_sift: "set (sift lt x left) = insert x (set left)"
  by (induction left) auto

lemma mset_sift: "mset (sift lt x left) = add_mset x (mset left)"
  by (induction left) auto

lemma sorted_sift:
  fixes f :: "'a \<Rightarrow> 'k::linorder"
  assumes "sorted (map f (rev left))"
  shows "sorted (map f (rev (sift (\<lambda>a b. f a < f b) x left)))"
  using assms
proof (induction left)
  case Nil
  show ?case by simp
next
  case (Cons y left)
  show ?case
  proof (cases "f x < f y")
    case True
    have tl: "sorted (map f (rev left))" and hd: "\<forall>z\<in>set left. f z \<le> f y"
      using Cons.prems by (auto simp: sorted_append)
    have "sorted (map f (rev (sift (\<lambda>a b. f a < f b) x left)))"
      using Cons.IH tl by simp
    moreover have "\<forall>z\<in>set (sift (\<lambda>a b. f a < f b) x left). f z \<le> f y"
      using hd True by (auto simp: set_sift)
    ultimately show ?thesis
      using True by (auto simp: sorted_append)
  next
    case False
    then show ?thesis
      using Cons.prems by (auto simp: sorted_append)
  qed
qed

lemma filter_sift:
  fixes f :: "'a \<Rightarrow> 'k::linorder"
  shows "filter (\<lambda>z. k = f z) (rev (sift (\<lambda>a b. f a < f b) x left))
       = filter (\<lambda>z. k = f z) (rev left) @ (if k = f x then [x] else [])"
  by (induction left) auto

lemma foldl_sift_props:
  fixes f :: "'a \<Rightarrow> 'k::linorder"
  assumes "sorted (map f (rev acc))"
  shows "sorted (map f (rev (foldl (\<lambda>left x. sift (\<lambda>a b. f a < f b) x left) acc xs)))
       \<and> mset (foldl (\<lambda>left x. sift (\<lambda>a b. f a < f b) x left) acc xs) = mset acc + mset xs
       \<and> (\<forall>k. filter (\<lambda>z. k = f z) (rev (foldl (\<lambda>left x. sift (\<lambda>a b. f a < f b) x left) acc xs))
              = filter (\<lambda>z. k = f z) (rev acc) @ filter (\<lambda>z. k = f z) xs)"
  using assms
proof (induction xs arbitrary: acc)
  case Nil
  then show ?case by simp
next
  case (Cons x xs)
  have "sorted (map f (rev (sift (\<lambda>a b. f a < f b) x acc)))"
    using Cons.prems by (rule sorted_sift)
  from Cons.IH [OF this] show ?case
    by (simp add: mset_sift filter_sift)
qed

lemma insertionSort_sort_key:
  fixes f :: "'a \<Rightarrow> 'k::linorder"
  shows "insertionSort (\<lambda>a b. f a < f b) xs = sort_key f xs"
proof -
  let ?ys = "insertionSort (\<lambda>a b. f a < f b) xs"
  have props: "sorted (map f ?ys) \<and> mset (rev ?ys) = mset xs
      \<and> (\<forall>k. filter (\<lambda>z. k = f z) ?ys = filter (\<lambda>z. k = f z) xs)"
    using foldl_sift_props [of f "[]" xs] by (simp add: insertionSort_def)
  have "sort_key f xs = ?ys"
  proof (rule properties_for_sort_key)
    show "mset ?ys = mset xs" using props by simp
    show "sorted (map f ?ys)" using props by simp
    show "filter (\<lambda>x. f k = f x) ?ys = filter (\<lambda>x. f k = f x) xs" for k
      using props by simp
  qed
  then show ?thesis by simp
qed



lemma sort_long_result:
  assumes "\<exists>ys. sort_result lt xs ys"
  shows "sort_result lt xs (sort_long lt xs)"
proof -
  have "\<exists>f. \<forall>lt xs. (\<exists>ys::'a list. sort_result lt xs ys) \<longrightarrow> sort_result lt xs (f lt xs)"
    by (intro exI [of _ "\<lambda>lt xs. SOME ys. sort_result lt xs ys"]) (auto intro: someI)
  then have "\<forall>lt xs. (\<exists>ys::'a list. sort_result lt xs ys) \<longrightarrow> sort_result lt xs (sort_long lt xs)"
    unfolding sort_long_def by (rule someI_ex)
  then show ?thesis using assms by blast
qed

lemma sort_result_key:
  fixes f :: "'a \<Rightarrow> 'k::linorder"
  shows "sort_result (\<lambda>a b. f a < f b) xs ys \<longleftrightarrow> mset ys = mset xs \<and> sorted (map f ys)"
  by (simp add: sort_result_def sorted_map not_less)

lemma sort_Sort_key:
  fixes f :: "'a \<Rightarrow> 'k::linorder"
  shows "mset (sort_Sort (\<lambda>a b. f a < f b) xs) = mset xs
       \<and> sorted (map f (sort_Sort (\<lambda>a b. f a < f b) xs))"
proof (cases "length xs \<le> 6")
  case True
  then show ?thesis by (simp add: sort_Sort_def insertionSort_sort_key)
next
  case False
  have "sort_result (\<lambda>a b. f a < f b) xs (sort_key f xs)"
    by (simp add: sort_result_key)
  then have "sort_result (\<lambda>a b. f a < f b) xs (sort_long (\<lambda>a b. f a < f b) xs)"
    by (intro sort_long_result) blast
  then show ?thesis using False by (simp add: sort_Sort_def sort_result_key)
qed

lemma sort_Sort_inj:
  fixes f :: "'a \<Rightarrow> 'k::linorder"
  assumes "inj_on f (set xs)"
  shows "sort_Sort (\<lambda>a b. f a < f b) xs = sort_key f xs"
  using sort_Sort_key [of f xs] assms by (intro sort_key_inj_key_eq [symmetric]) simp_all

lemma sort_Sort_short:
  fixes f :: "'a \<Rightarrow> 'k::linorder"
  assumes "length xs \<le> 6"
  shows "sort_Sort (\<lambda>a b. f a < f b) xs = sort_key f xs"
  using assms by (simp add: sort_Sort_def insertionSort_sort_key)

lemma ports_sorted: "sort_Sort UintSlice_Less ps = sort ps"
  unfolding UintSlice_Less_def using sort_Sort_inj [of "\<lambda>x. x" ps] by simp

lemma PortRangeSlice_Less_key:
  "PortRangeSlice_Less = (\<lambda>a b. PortRange_diff a < PortRange_diff b)"
  by (simp add: fun_eq_iff PortRangeSlice_Less_def PortRange_diff_def)

lemma ranges_sorted:
  "mset (sort_Sort PortRangeSlice_Less rs) = mset rs"
  "sorted (map PortRange_diff (sort_Sort PortRangeSlice_Less rs))"
  using sort_Sort_key [of PortRange_diff rs] by (simp_all add: PortRangeSlice_Less_key)

lemma ranges_sorted_inj:
  "inj_on PortRange_diff (set rs) \<Longrightarrow>
   sort_Sort PortRangeSlice_Less rs = sort_key PortRange_diff rs"
  using sort_Sort_inj [of PortRange_diff rs] by (simp add: PortRangeSlice_Less_key)

lemma ranges_sorted_short:
  "length rs \<le> 6 \<Longrightarrow> sort_Sort PortRangeSlice_Less rs = sort_key PortRange_diff rs"
  using sort_Sort_short [of rs PortRange_diff] by (simp add: PortRangeSlice_Less_key)

lemma endpoints_sorted:
  "mset (EndpointList_List (EndpointList_Sort (NewEndpointList es))) = mset es"
  "sorted (map EndpointToString (EndpointList_List (EndpointList_Sort (NewEndpointList es))))"
proof -
  let ?items = "NewEndpointList es"
  let ?sorted = "EndpointList_Sort ?items"
  have less: "EndpointList_Less = (\<lambda>a b. key a < key b)"
    by (simp add: fun_eq_iff EndpointList_Less_def)
  have m: "mset ?sorted = mset ?items" and s: "sorted (map key ?sorted)"
    using sort_Sort_key [of key ?items] by (simp_all add: EndpointList_Sort_def less)
  have "map endpoint ?items = es"
    by (simp add: NewEndpointList_def comp_def)
  then have "mset (map endpoint ?items) = mset es"
    by simp
  moreover have "mset (map endpoint ?sorted) = mset (map endpoint ?items)"
    using m by (metis mset_map)
  ultimately show "mset (EndpointList_List ?sorted) = mset es"
    by (simp add: EndpointList_List_def)
  have "set ?sorted = set ?items"
    using m by (rule mset_eq_setD)
  then have "key x = EndpointToString (endpoint x)" if "x \<in> set ?sorted" for x
    using that by (auto simp: NewEndpointList_def)
  then have "map key ?sorted = map EndpointToString (EndpointList_List ?sorted)"
    by (simp add: EndpointList_List_def)
  then show "sorted (map EndpointToString (EndpointList_List ?sorted))"
    using s by simp
qed

lemma endpoints_sorted_inj:
  assumes "inj_on EndpointToString (set es)"
  shows "EndpointList_List (EndpointList_Sort (NewEndpointList es)) = sort_key EndpointToString es"
  using endpoints_sorted [of es] assms by (intro sort_key_inj_key_eq [symmetric]) simp_all

lemma sort_key_perm_inj:
  assumes "mset xs = mset ys" "inj_on f (set xs)"
  shows "sort_key f xs = sort_key f ys"
  using assms by (intro sort_key_inj_key_eq) auto

lemma sort_perm:
  fixes xs :: "'a::linorder list"
  shows "mset xs = mset ys \<Longrightarrow> sort xs = sort ys"
  by (rule sort_key_perm_inj) auto

lemma fmt_d_0: "fmt_d 0 = ''0''"
  by (simp add: fmt_d_def decimal.simps [of 0] digit_def)

lemma key_cidr: "EndpointToString (cidr_endpoint c) = c @ ''0000''"
  by (simp add: EndpointToString_def cidr_endpoint_def Endpoint0_def fmt_d_0)

section \<open>Preservation of content\<close>

lemma RuleToCanonical_content: "same_rule_content r (RuleToCanonical r)"
  by (simp add: same_rule_content_def RuleToCanonical_def ports_sorted ranges_sorted)

lemma IngressToCanonical_content: "same_ingress_content i (IngressToCanonical i)"
  by (simp add: same_ingress_content_def IngressToCanonical_def endpoints_sorted
      list_all2_map2 RuleToCanonical_content list_all2_same)

text \<open>
  Claim C10.  \<open>PolicyToCanonical\<close> preserves the content of a policy: the output has the
  \<open>Direction\<close>, \<open>Description\<close>, \<open>Name\<close>, \<open>ID\<close> and \<open>ExternalID\<close> of the input; its
  \<open>AppliedTo\<close> is a permutation of the input's; it has as many ingress entries, in the same
  order, the \<open>Peers\<close> of each a permutation of the input entry's \<open>Peers\<close> and its \<open>Rules\<close>
  of the same length; and in every rule \<open>Ports\<close> and \<open>PortRanges\<close> are permutations of the
  input's, the other fields unchanged.  Nothing is added, dropped or altered.
\<close>

theorem PolicyToCanonical_preserves_content:
  "same_policy_content p (PolicyToCanonical p)"
  by (simp add: same_policy_content_def PolicyToCanonical_def endpoints_sorted
      list_all2_map2 IngressToCanonical_content list_all2_same)

section \<open>Independence of the input order\<close>

lemma endpoints_perm:
  assumes "mset es = mset fs" "inj_on EndpointToString (set es)"
  shows "EndpointList_List (EndpointList_Sort (NewEndpointList es))
       = EndpointList_List (EndpointList_Sort (NewEndpointList fs))"
proof -
  have "set fs = set es"
    using assms(1) by (metis mset_eq_setD)
  then have "inj_on EndpointToString (set fs)"
    using assms(2) by simp
  then have "EndpointList_List (EndpointList_Sort (NewEndpointList fs))
      = sort_key EndpointToString fs"
    by (rule endpoints_sorted_inj)
  moreover have "EndpointList_List (EndpointList_Sort (NewEndpointList es))
      = sort_key EndpointToString es"
    using assms(2) by (rule endpoints_sorted_inj)
  moreover have "sort_key EndpointToString es = sort_key EndpointToString fs"
    using assms by (rule sort_key_perm_inj)
  ultimately show ?thesis by simp
qed

lemma ranges_perm:
  assumes "mset rs = mset ss" "inj_on PortRange_diff (set rs)"
  shows "sort_Sort PortRangeSlice_Less rs = sort_Sort PortRangeSlice_Less ss"
proof -
  have "set ss = set rs"
    using assms(1) by (metis mset_eq_setD)
  then have "inj_on PortRange_diff (set ss)"
    using assms(2) by simp
  then have "sort_Sort PortRangeSlice_Less ss = sort_key PortRange_diff ss"
    by (rule ranges_sorted_inj)
  moreover have "sort_Sort PortRangeSlice_Less rs = sort_key PortRange_diff rs"
    using assms(2) by (rule ranges_sorted_inj)
  moreover have "sort_key PortRange_diff rs = sort_key PortRange_diff ss"
    using assms by (rule sort_key_perm_inj)
  ultimately show ?thesis by simp
qed

lemma RuleToCanonical_perm:
  assumes "same_rule_content r s" "distinct_range_keys r"
  shows "RuleToCanonical r = RuleToCanonical s"
proof -
  have "sort (Ports r) = sort (Ports s)"
    using assms(1) by (intro sort_perm) (simp add: same_rule_content_def)
  moreover have "sort_Sort PortRangeSlice_Less (PortRanges r)
      = sort_Sort PortRangeSlice_Less (PortRanges s)"
    using assms
    by (intro ranges_perm) (simp_all add: same_rule_content_def distinct_range_keys_def)
  ultimately show ?thesis
    using assms(1)
    by (simp add: RuleToCanonical_def ports_sorted same_rule_content_def)
qed

lemma Rules_perm:
  assumes "list_all2 same_rule_content rs ss" "list_all distinct_range_keys rs"
  shows "map RuleToCanonical rs = map RuleToCanonical ss"
  using assms by (induction rs ss rule: list_all2_induct) (auto simp: RuleToCanonical_perm)

lemma IngressToCanonical_perm:
  assumes "same_ingress_content i j" "distinct_keys_ingress i"
  shows "IngressToCanonical i = IngressToCanonical j"
proof -
  have "EndpointList_List (EndpointList_Sort (NewEndpointList (Peers i)))
      = EndpointList_List (EndpointList_Sort (NewEndpointList (Peers j)))"
    using assms
    by (intro endpoints_perm) (simp_all add: same_ingress_content_def distinct_keys_ingress_def)
  moreover have "map RuleToCanonical (Rules i) = map RuleToCanonical (Rules j)"
    using assms
    by (intro Rules_perm) (simp_all add: same_ingress_content_def distinct_keys_ingress_def)
  ultimately show ?thesis
    by (simp add: IngressToCanonical_def)
qed

lemma Ingress_perm:
  assumes "list_all2 same_ingress_content is js" "list_all distinct_keys_ingress is"
  shows "map IngressToCanonical is = map IngressToCanonical js"
  using assms by (induction "is" js rule: list_all2_induct) (auto simp: IngressToCanonical_perm)

text \<open>
  Claim C1, as amended.  The result of \<open>PolicyToCanonical\<close> does not depend on the order of
  \<open>AppliedTo\<close>, of the \<open>Peers\<close> of an ingress entry, or of the \<open>Ports\<close> and \<open>PortRanges\<close>
  of a rule, provided that no two distinct endpoints of one collection have the same
  \<open>EndpointToString\<close> key and no two distinct ranges of one rule the same difference
  \<open>low - high\<close>.  The ingress entries and the rules of an entry are taken in the same order
  on both sides.
\<close>

theorem PolicyToCanonical_order_independent:
  assumes "same_policy_content p q" "distinct_keys p"
  shows "PolicyToCanonical p = PolicyToCanonical q"
proof -
  have "EndpointList_List (EndpointList_Sort (NewEndpointList (AppliedTo p)))
      = EndpointList_List (EndpointList_Sort (NewEndpointList (AppliedTo q)))"
    using assms by (intro endpoints_perm) (simp_all add: same_policy_content_def distinct_keys_def)
  moreover have "map IngressToCanonical (Ingress p) = map IngressToCanonical (Ingress q)"
    using assms by (intro Ingress_perm) (simp_all add: same_policy_content_def distinct_keys_def)
  ultimately show ?thesis
    using assms(1)
    by (simp add: PolicyToCanonical_def same_policy_content_def)
qed

text \<open>
  The amended claim at two policies that differ in the order of every sorted collection.
\<close>

theorem PolicyToCanonical_order_independent_witness:
  "same_policy_content
     (sample_policy [cidr_endpoint ''b'', cidr_endpoint ''a''] [99, 80] [(1, 5), (1, 2)])
     (sample_policy [cidr_endpoint ''a'', cidr_endpoint ''b''] [80, 99] [(1, 2), (1, 5)])
   \<and> distinct_keys
        (sample_policy [cidr_endpoint ''b'', cidr_endpoint ''a''] [99, 80] [(1, 5), (1, 2)])
   \<and> PolicyToCanonical
        (sample_policy [cidr_endpoint ''b'', cidr_endpoint ''a''] [99, 80] [(1, 5), (1, 2)])
     = PolicyToCanonical
        (sample_policy [cidr_endpoint ''a'', cidr_endpoint ''b''] [80, 99] [(1, 2), (1, 5)])"
proof -
  let ?p = "sample_policy [cidr_endpoint ''b'', cidr_endpoint ''a''] [99, 80] [(1, 5), (1, 2)]"
  let ?q = "sample_policy [cidr_endpoint ''a'', cidr_endpoint ''b''] [80, 99] [(1, 2), (1, 5)]"
  have h1: "same_policy_content ?p ?q"
    by (simp add: same_policy_content_def same_ingress_content_def same_rule_content_def
        sample_policy_def Policy0_def Rule0_def)
  have h2: "distinct_keys ?p"
    by (auto simp: distinct_keys_def distinct_keys_ingress_def distinct_range_keys_def
        sample_policy_def Policy0_def Rule0_def key_cidr PortRange_diff_def)
  from PolicyToCanonical_order_independent [OF h1 h2] h1 h2 show ?thesis by simp
qed

text \<open>
  Claim C1, as stated, fails: the ranges \<open>[1,2]\<close> and \<open>[3,4]\<close> have the same difference,
  \<open>PortRangeSlice.Less\<close> holds in neither direction, and the sort leaves them in the order
  of the input.  Two policies that differ only in the order of these ranges have
  different canonical forms.
\<close>

theorem PolicyToCanonical_order_counterexample:
  "same_policy_content (ranges_policy [(1, 2), (3, 4)]) (ranges_policy [(3, 4), (1, 2)])
   \<and> PolicyToCanonical (ranges_policy [(1, 2), (3, 4)])
     \<noteq> PolicyToCanonical (ranges_policy [(3, 4), (1, 2)])"
  by (simp add: same_policy_content_def same_ingress_content_def same_rule_content_def
      ranges_policy_def Policy0_def Rule0_def PolicyToCanonical_def IngressToCanonical_def
      RuleToCanonical_def sort_Sort_def insertionSort_def PortRangeSlice_Less_def UintSlice_Less_def
      EndpointList_List_def EndpointList_Sort_def NewEndpointList_def)

text \<open>
  The order of the rules of an ingress entry is kept as well: \<open>IngressToCanonical\<close> maps
  \<open>RuleToCanonical\<close> over them and never calls \<open>RulesToCanonical\<close>, which would sort them.
\<close>

lemma IngressToCanonical_keeps_rule_order:
  "map Protocol (Rules (IngressToCanonical i)) = map Protocol (Rules i)"
  by (simp add: IngressToCanonical_def RuleToCanonical_def comp_def)

lemma rule_order_example:
  "PolicyToCanonical (rules_policy [Rule0 \<lparr> Protocol := ''UDP'' \<rparr>, Rule0 \<lparr> Protocol := ''TCP'' \<rparr>])
     \<noteq> PolicyToCanonical (rules_policy [Rule0 \<lparr> Protocol := ''TCP'' \<rparr>, Rule0 \<lparr> Protocol := ''UDP'' \<rparr>])
   \<and> RulesToCanonical [Rule0 \<lparr> Protocol := ''UDP'' \<rparr>, Rule0 \<lparr> Protocol := ''TCP'' \<rparr>]
     = RulesToCanonical [Rule0 \<lparr> Protocol := ''TCP'' \<rparr>, Rule0 \<lparr> Protocol := ''UDP'' \<rparr>]"
  by (simp add: rules_policy_def Policy0_def Rule0_def PolicyToCanonical_def
      IngressToCanonical_def RulesToCanonical_def RuleSlice_Less_def RuleToString_def
      RuleToCanonical_def sort_Sort_def insertionSort_def fmt_d_0 fmt_t_def)

section \<open>The endpoint key\<close>

text \<open>
  Claim C4, as amended.  Two endpoints with equal field values, an absent
  \<open>TenantNetworkID\<close> or \<open>SegmentNetworkID\<close> read as zero, have the same
  \<open>EndpointToString\<close> key.  (The converse is not claimed.)
\<close>

theorem EndpointToString_equal_fields:
  "same_endpoint_fields a b \<Longrightarrow> EndpointToString a = EndpointToString b"
  by (simp add: same_endpoint_fields_def EndpointToString_def network_id_value_def)

text \<open>An endpoint with the network id zero and one without a network id.\<close>

theorem EndpointToString_equal_fields_witness:
  "same_endpoint_fields (Endpoint0 \<lparr> Cidr := ''10.0.0.0/8'', TenantNetworkID := Some 0 \<rparr>)
                        (Endpoint0 \<lparr> Cidr := ''10.0.0.0/8'' \<rparr>)
   \<and> EndpointToString (Endpoint0 \<lparr> Cidr := ''10.0.0.0/8'', TenantNetworkID := Some 0 \<rparr>)
     = EndpointToString (Endpoint0 \<lparr> Cidr := ''10.0.0.0/8'' \<rparr>)"
proof -
  have h: "same_endpoint_fields (Endpoint0 \<lparr> Cidr := ''10.0.0.0/8'', TenantNetworkID := Some 0 \<rparr>)
                                (Endpoint0 \<lparr> Cidr := ''10.0.0.0/8'' \<rparr>)"
    by (simp add: same_endpoint_fields_def Endpoint0_def network_id_value_def)
  from EndpointToString_equal_fields [OF h] h show ?thesis by simp
qed

text \<open>
  Claim C4, as stated, fails: the fields are concatenated without a delimiter, so the
  endpoint with \<open>Peer = "a"\<close> and the endpoint with \<open>Cidr = "a"\<close> have the same key
  \<open>"a0000"\<close> and different fields.
\<close>

theorem EndpointToString_ambiguous:
  "EndpointToString (Endpoint0 \<lparr> Peer := ''a'' \<rparr>) = EndpointToString (Endpoint0 \<lparr> Cidr := ''a'' \<rparr>)
   \<and> \<not> same_endpoint_fields (Endpoint0 \<lparr> Peer := ''a'' \<rparr>) (Endpoint0 \<lparr> Cidr := ''a'' \<rparr>)"
  by (simp add: same_endpoint_fields_def EndpointToString_def Endpoint0_def)

section \<open>The order of port ranges\<close>

lemma unat_diff_wrap:
  fixes lo hi :: uint
  assumes "lo \<le> hi"
  shows "unat (lo - hi) = (if lo = hi then 0 else 2 ^ 64 - unat (hi - lo))"
proof (cases "lo = hi")
  case True
  then show ?thesis by simp
next
  case False
  have lt: "unat lo < unat hi"
    using assms False by (simp add: word_less_nat_alt [symmetric])
  have bound: "unat hi < 2 ^ 64"
    using unsigned_less [of hi] by simp
  have "unat (lo - hi) = unat lo + 2 ^ 64 - unat hi"
    using lt by (simp add: unat_sub_if')
  moreover have "unat (hi - lo) = unat hi - unat lo"
    using assms by (rule unat_sub)
  ultimately show ?thesis
    using False lt bound by simp
qed

text \<open>
  Claim C5, as amended.  Port ranges are compared by \<open>low - high\<close> computed on \<open>uint\<close>: for
  \<open>low \<le> high\<close> this is \<open>0\<close> when the range has width zero and \<open>2^64 - width\<close> otherwise,
  where \<open>width = high - low\<close>.  Two ranges of equal width compare equal, wherever they lie.
\<close>

theorem PortRange_wrapped_difference:
  assumes "fst a \<le> snd a"
  shows "unat (PortRange_diff a) = (if fst a = snd a then 0 else 2 ^ 64 - unat (snd a - fst a))
       \<and> (PortRangeSlice_Less a b \<longleftrightarrow> PortRange_diff a < PortRange_diff b)
       \<and> (snd a - fst a = snd b - fst b
            \<longrightarrow> \<not> PortRangeSlice_Less a b \<and> \<not> PortRangeSlice_Less b a)"
proof -
  have "snd a - fst a = snd b - fst b \<Longrightarrow> fst a - snd a = fst b - snd b"
    by (metis minus_diff_eq)
  then show ?thesis
    using assms by (auto simp: PortRange_diff_def PortRangeSlice_Less_def unat_diff_wrap)
qed

text \<open>The ranges \<open>[80,90]\<close> and \<open>[8080,8090]\<close>, both of width 10.\<close>

theorem PortRange_wrapped_difference_witness:
  "fst (80 :: uint, 90 :: uint) \<le> snd (80 :: uint, 90 :: uint)
   \<and> unat (PortRange_diff (80, 90)) = 2 ^ 64 - 10
   \<and> \<not> PortRangeSlice_Less (80, 90) (8080, 8090) \<and> \<not> PortRangeSlice_Less (8080, 8090) (80, 90)"
proof -
  have h: "fst (80 :: uint, 90 :: uint) \<le> snd (80 :: uint, 90 :: uint)" by simp
  from PortRange_wrapped_difference [OF h, of "(8080, 8090)"] h show ?thesis
    by (simp add: PortRangeSlice_Less_def)
qed

text \<open>
  Claim C5, as stated, fails: for the range \<open>[80,90]\<close> the compared quantity is
  \<open>18446744073709551606\<close>, which is positive and not of magnitude 10; and the range
  \<open>[5,5]\<close> of width zero is less than \<open>[80,90]\<close>, whereas \<open>5 - 5 < 80 - 90\<close> is false
  of the integers.
\<close>

theorem PortRange_difference_counterexample:
  "(80 :: uint) \<le> 90
   \<and> unat (PortRange_diff (80, 90)) = 18446744073709551606
   \<and> 0 < unat (PortRange_diff (80, 90))
   \<and> unat (PortRange_diff (80, 90)) \<noteq> unat (90 - 80 :: uint)
   \<and> PortRangeSlice_Less (5, 5) (80, 90)
   \<and> \<not> (5 - 5 < (80 :: int) - 90)"
  by (simp add: PortRange_diff_def PortRangeSlice_Less_def word_less_nat_alt)

section \<open>Scenario C\<close>

text \<open>
  Claim C6, as amended.  For the rule \<open>{Protocol:"TCP", Ports:[99,80,8080]}\<close>
  canonicalisation yields \<open>Ports = [80,99,8080]\<close>, and \<open>RuleToString\<close> yields
  \<open>"TCP8099808000false"\<close>: the protocol, the ascending ports \<open>80\<close>, \<open>99\<close>, \<open>8080\<close>, no
  port ranges, then \<open>IcmpType\<close>, \<open>IcmpCode\<close> and \<open>IsStateful\<close>.
\<close>

theorem scenario_C_canonical:
  "Ports (RuleToCanonical scenario_C_rule) = [80, 99, 8080]
   \<and> RuleToString scenario_C_rule = ''TCP'' @ ''80'' @ ''99'' @ ''8080'' @ ''00false''"
  by (simp add: scenario_C_rule_def Rule0_def RuleToString_def RuleToCanonical_def
      sort_Sort_def insertionSort_def UintSlice_Less_def fmt_d_def fmt_t_def digit_def
      decimal.simps [of 8080] decimal.simps [of 808] decimal.simps [of 80]
      decimal.simps [of 99] decimal.simps [of 9] decimal.simps [of 8] decimal.simps [of 0])

text \<open>
  Claim C6, as stated, fails in its second half: the canonical string starts with
  \<open>"TCP809980"\<close>, not with \<open>"TCP808099"\<close>.
\<close>

theorem scenario_C_string_counterexample:
  "take 9 (RuleToString scenario_C_rule) = ''TCP809980''
   \<and> take 9 (RuleToString scenario_C_rule) \<noteq> ''TCP808099''"
  by (simp add: scenario_C_rule_def Rule0_def RuleToString_def RuleToCanonical_def
      sort_Sort_def insertionSort_def UintSlice_Less_def fmt_d_def fmt_t_def digit_def
      decimal.simps [of 8080] decimal.simps [of 808] decimal.simps [of 80]
      decimal.simps [of 99] decimal.simps [of 9] decimal.simps [of 8] decimal.simps [of 0])

section \<open>What the call does to the arrays of its argument\<close>

lemma sorted_from_refl: "sorted_from s {} {} s"
  by (simp add: sorted_from_def)

lemma ports_resorted: "sort_Sort UintSlice_Less (sort_Sort UintSlice_Less ps) = sort_Sort UintSlice_Less ps"
  by (simp add: ports_sorted sort_key_id_if_sorted)

lemma resorted_short:
  assumes "length (range_arrays s a) \<le> 6"
  shows "resorted s a"
proof -
  have "length (sort_key PortRange_diff (range_arrays s a)) \<le> 6"
    using assms by simp
  then show ?thesis
    using assms by (simp add: resorted_def ranges_sorted_short sort_key_id_if_sorted)
qed

lemma resorted_inj:
  assumes "inj_on PortRange_diff (set (range_arrays s a))"
  shows "resorted s a"
  using assms by (simp add: resorted_def ranges_sorted_inj sort_key_id_if_sorted)

lemma sort_once_append:
  "sort_once s B (as @ bs) \<longleftrightarrow> sort_once s B as \<and> sort_once s (B \<union> set as) bs"
  by (induction as arbitrary: B) (simp_all add: insert_commute Un_insert_left [symmetric] del: Un_insert_left)

lemma sort_once_distinct:
  assumes "distinct as" "set as \<inter> B = {}"
  shows "sort_once s B as"
  using assms by (induction as arbitrary: B) auto

lemma sort_once_resorted:
  assumes "\<forall>a\<in>set as. resorted s a"
  shows "sort_once s B as"
  using assms by (induction as arbitrary: B) auto

lemma set_rule_ranges_list: "set (rule_ranges_list rs) = rule_ranges rs"
  by (simp add: rule_ranges_list_def rule_ranges_def)

lemma set_ingress_ranges_list: "set (ingress_ranges_list is) = ingress_ranges is"
  by (simp add: ingress_ranges_list_def ingress_ranges_def set_rule_ranges_list)

lemma RuleToCanonical_st_step:
  assumes "sorted_from s A B s1" "PortRanges_st r \<in> B \<longrightarrow> resorted s (PortRanges_st r)"
  shows "snd (RuleToCanonical_st s1 r) = r
       \<and> sorted_from s (insert (Ports_st r) A) (insert (PortRanges_st r) B)
            (fst (RuleToCanonical_st s1 r))"
  using assms
  by (auto simp: sorted_from_def RuleToCanonical_st_def sort_Sort_ports_def sort_Sort_ranges_def
      ports_resorted resorted_def fun_eq_iff Let_def)

lemma Rules_loop_st_step:
  assumes "sorted_from s A B s1" "sort_once s B (rule_ranges_list rs)"
  shows "snd (Rules_loop_st s1 rs) = rs
       \<and> sorted_from s (A \<union> rule_ports rs) (B \<union> rule_ranges rs) (fst (Rules_loop_st s1 rs))"
  using assms
proof (induction rs arbitrary: s1 A B)
  case Nil
  then show ?case by (simp add: rule_ports_def rule_ranges_def)
next
  case (Cons r rs)
  have fresh: "PortRanges_st r \<in> B \<longrightarrow> resorted s (PortRanges_st r)"
    and rest: "sort_once s (insert (PortRanges_st r) B) (rule_ranges_list rs)"
    using Cons.prems(2) by (simp_all add: rule_ranges_list_def)
  obtain s2 r' where r: "RuleToCanonical_st s1 r = (s2, r')" by force
  have r': "r' = r"
    and s2: "sorted_from s (insert (Ports_st r) A) (insert (PortRanges_st r) B) s2"
    using RuleToCanonical_st_step [OF Cons.prems(1) fresh] r by simp_all
  from Cons.IH [OF s2 rest] show ?case
    using r r' by (simp add: split_beta rule_ports_def rule_ranges_def)
qed

lemma IngressToCanonical_st_step:
  assumes "sorted_from s A B s1" "sort_once s B (rule_ranges_list (Rules_st i))"
  shows "snd (IngressToCanonical_st s1 i)
           = \<lparr> Peers_st = EndpointList_List (EndpointList_Sort (NewEndpointList (Peers_st i))),
               Rules_st = Rules_st i \<rparr>
       \<and> sorted_from s (A \<union> rule_ports (Rules_st i)) (B \<union> rule_ranges (Rules_st i))
            (fst (IngressToCanonical_st s1 i))"
  using Rules_loop_st_step [OF assms]
  by (simp add: IngressToCanonical_st_def split_beta)

lemma Ingress_loop_st_step:
  assumes "sorted_from s A B s1" "sort_once s B (ingress_ranges_list is)"
  shows "snd (Ingress_loop_st s1 is)
           = map (\<lambda>i. \<lparr> Peers_st = EndpointList_List (EndpointList_Sort (NewEndpointList (Peers_st i))),
                         Rules_st = Rules_st i \<rparr>) is
       \<and> sorted_from s (A \<union> ingress_ports is) (B \<union> ingress_ranges is)
            (fst (Ingress_loop_st s1 is))"
  using assms
proof (induction "is" arbitrary: s1 A B)
  case Nil
  then show ?case by (simp add: ingress_ports_def ingress_ranges_def)
next
  case (Cons i "is")
  have here: "sort_once s B (rule_ranges_list (Rules_st i))"
    and rest: "sort_once s (B \<union> rule_ranges (Rules_st i)) (ingress_ranges_list is)"
    using Cons.prems(2)
    by (simp_all add: ingress_ranges_list_def sort_once_append set_rule_ranges_list)
  have s2: "sorted_from s (A \<union> rule_ports (Rules_st i)) (B \<union> rule_ranges (Rules_st i))
              (fst (IngressToCanonical_st s1 i))"
    using IngressToCanonical_st_step [OF Cons.prems(1) here] by simp
  from Cons.IH [OF s2 rest] IngressToCanonical_st_step [OF Cons.prems(1) here] show ?case
    by (simp add: split_beta ingress_ports_def ingress_ranges_def Un_assoc)
qed

lemma read_Rule_sorted_from:
  assumes "sorted_from s A B s'" "Ports_st r \<in> A" "PortRanges_st r \<in> B"
  shows "read_Rule s' r = RuleToCanonical (read_Rule s r)"
  using assms
  by (simp add: sorted_from_def read_Rule_def RuleToCanonical_def)

lemma read_Ingress_sorted_from:
  assumes "sorted_from s A B s'" "rule_ports (Rules_st i) \<subseteq> A" "rule_ranges (Rules_st i) \<subseteq> B"
  shows "read_RomanaIngress s'
           \<lparr> Peers_st = EndpointList_List (EndpointList_Sort (NewEndpointList (Peers_st i))),
             Rules_st = Rules_st i \<rparr>
       = IngressToCanonical (read_RomanaIngress s i)"
proof -
  have "read_Rule s' r = RuleToCanonical (read_Rule s r)" if "r \<in> set (Rules_st i)" for r
    using that assms
    by (intro read_Rule_sorted_from [OF assms(1)]) (auto simp: rule_ports_def rule_ranges_def)
  then show ?thesis
    by (simp add: read_RomanaIngress_def IngressToCanonical_def)
qed

text \<open>
  The policy that \<open>PolicyToCanonical\<close> returns, read in the store it leaves behind, is the
  result of the function on values above, applied to the argument as it was before the
  call: the value-level definitions describe the returned policy.  Where two rules hold the
  same range array, sorting it a second time must leave it unchanged.
\<close>

lemma PolicyToCanonical_st_result:
  assumes "sort_once s {} (ingress_ranges_list (Ingress_st p))"
  shows "read_Policy (fst (PolicyToCanonical_st s p)) (snd (PolicyToCanonical_st s p))
     = PolicyToCanonical (read_Policy s p)"
proof -
  let ?s' = "fst (Ingress_loop_st s (Ingress_st p))"
  have loop: "snd (Ingress_loop_st s (Ingress_st p))
           = map (\<lambda>i. \<lparr> Peers_st = EndpointList_List (EndpointList_Sort (NewEndpointList (Peers_st i))),
                         Rules_st = Rules_st i \<rparr>) (Ingress_st p)"
    and inv: "sorted_from s (ingress_ports (Ingress_st p)) (ingress_ranges (Ingress_st p)) ?s'"
    using Ingress_loop_st_step [OF sorted_from_refl assms] by simp_all
  have "read_RomanaIngress ?s'
          \<lparr> Peers_st = EndpointList_List (EndpointList_Sort (NewEndpointList (Peers_st i))),
            Rules_st = Rules_st i \<rparr>
       = IngressToCanonical (read_RomanaIngress s i)" if "i \<in> set (Ingress_st p)" for i
    using that
    by (intro read_Ingress_sorted_from [OF inv]) (auto simp: ingress_ports_def ingress_ranges_def)
  then show ?thesis
    by (simp add: PolicyToCanonical_st_def split_beta read_Policy_def PolicyToCanonical_def loop)
qed

text \<open>
  That is so when no two rules of the policy hold the same range array, and when every
  range array has at most 6 elements.
\<close>

lemma PolicyToCanonical_st_result_unshared:
  assumes "distinct (ingress_ranges_list (Ingress_st p))"
  shows "read_Policy (fst (PolicyToCanonical_st s p)) (snd (PolicyToCanonical_st s p))
     = PolicyToCanonical (read_Policy s p)"
  using assms by (intro PolicyToCanonical_st_result sort_once_distinct) simp_all

lemma PolicyToCanonical_st_result_short:
  assumes "\<forall>a\<in>set (ingress_ranges_list (Ingress_st p)). length (range_arrays s a) \<le> 6"
  shows "read_Policy (fst (PolicyToCanonical_st s p)) (snd (PolicyToCanonical_st s p))
     = PolicyToCanonical (read_Policy s p)"
  using assms by (intro PolicyToCanonical_st_result sort_once_resorted) (simp add: resorted_short)

text \<open>
  The argument itself, read after the call, has every rule in canonical form: its
  \<open>Ports\<close> and \<open>PortRanges\<close> have been sorted in place.  The scalar fields, \<open>AppliedTo\<close>
  and the \<open>Peers\<close> are as before.
\<close>

lemma PolicyToCanonical_st_argument:
  assumes "sort_once s {} (ingress_ranges_list (Ingress_st p))"
  shows "read_Policy (fst (PolicyToCanonical_st s p)) p
     = (read_Policy s p) \<lparr> Ingress :=
         map (\<lambda>i. i \<lparr> Rules := map RuleToCanonical (Rules i) \<rparr>) (Ingress (read_Policy s p)) \<rparr>"
proof -
  let ?s' = "fst (Ingress_loop_st s (Ingress_st p))"
  have inv: "sorted_from s (ingress_ports (Ingress_st p)) (ingress_ranges (Ingress_st p)) ?s'"
    using Ingress_loop_st_step [OF sorted_from_refl assms] by simp
  have "read_Rule ?s' r = RuleToCanonical (read_Rule s r)"
    if "i \<in> set (Ingress_st p)" "r \<in> set (Rules_st i)" for i r
    using that
    by (intro read_Rule_sorted_from [OF inv])
      (auto simp: ingress_ports_def ingress_ranges_def rule_ports_def rule_ranges_def)
  then have "read_RomanaIngress ?s' i
      = (read_RomanaIngress s i) \<lparr> Rules := map RuleToCanonical (Rules (read_RomanaIngress s i)) \<rparr>"
    if "i \<in> set (Ingress_st p)" for i
    using that by (simp add: read_RomanaIngress_def)
  then show ?thesis
    by (simp add: PolicyToCanonical_st_def split_beta read_Policy_def)
qed

text \<open>
  Claim C2: \<open>PolicyToCanonical\<close> is to leave its argument as it was.  The code does not:
  for the policy with the one rule \<open>{Protocol:"TCP", Ports:[99,80,8080]}\<close>, the \<open>Ports\<close>
  of the argument read \<open>[99,80,8080]\<close> before the call and \<open>[80,99,8080]\<close> after it.
\<close>

theorem PolicyToCanonical_mutates_input:
  "Ports (hd (Rules (hd (Ingress (read_Policy scenario_store scenario_policy_st)))))
     = [99, 80, 8080]
   \<and> Ports (hd (Rules (hd (Ingress
        (read_Policy (fst (PolicyToCanonical_st scenario_store scenario_policy_st))
           scenario_policy_st))))) = [80, 99, 8080]"
  by (simp add: scenario_store_def scenario_policy_st_def read_Policy_def read_RomanaIngress_def
      read_Rule_def PolicyToCanonical_st_def IngressToCanonical_st_def RuleToCanonical_st_def
      sort_Sort_ports_def sort_Sort_ranges_def sort_Sort_def insertionSort_def UintSlice_Less_def
      PortRangeSlice_Less_def EndpointList_List_def EndpointList_Sort_def NewEndpointList_def)

section \<open>Chain lifecycle\<close>

lemmas lifecycle_defs = CreateChains_def ensureChain_def isChainExist_def Exec_def
  DivertTrafficToRomanaIPtablesChain_def EnsureRule_def isRuleExist_def CreateDefaultRule_def
  CreateRules_def CreateU32Rules_def divert_rule_def u32_rule_def list_cmd_def new_cmd_def
  check_cmd_def append_cmd_def

text \<open>The model issues the command lines that the tests of package \<open>firewall\<close> expect.\<close>

lemma TestCreateChains:
  "map argv (CreateChains (FakeExecutor [] None)
     [\<lparr> base_chain = b1, chain_name = ''ROMANA-INPUT'' \<rparr>,
      \<lparr> base_chain = b2, chain_name = ''ROMANA-FORWARD-IN'' \<rparr>,
      \<lparr> base_chain = b3, chain_name = ''ROMANA-FORWARD-OUT'' \<rparr>,
      \<lparr> base_chain = b4, chain_name = ''ROMANA-FORWARD-IN'' \<rparr>] [])
   = [[''-w'', ''-L'', ''ROMANA-INPUT''], [''-w'', ''-L'', ''ROMANA-FORWARD-IN''],
      [''-w'', ''-L'', ''ROMANA-FORWARD-OUT''], [''-w'', ''-L'', ''ROMANA-FORWARD-IN'']]"
  by (simp add: lifecycle_defs FakeExecutor_def argv_def)

lemma TestDivertTraffic:
  "map argv (DivertTrafficToRomanaIPtablesChain (FakeExecutor [] (Some ''Rule not found''))
     ''eth0'' input_chain [])
   = [[''-w'', ''-C'', ''INPUT'', ''-i'', ''eth0'', ''-j'', ''ROMANA-INPUT''],
      [''-A'', ''INPUT'', ''-i'', ''eth0'', ''-j'', ''ROMANA-INPUT'']]"
  by (simp add: lifecycle_defs FakeExecutor_def input_chain_def argv_def)

lemma TestCreateDefaultRules:
  "map argv (CreateDefaultRule (FakeExecutor [] None) input_chain ''DROP'' [])
     = [[''-w'', ''-C'', ''ROMANA-INPUT'', ''-j'', ''DROP'']]
   \<and> map argv (CreateDefaultRule (FakeExecutor [] None) input_chain ''ACCEPT'' [])
     = [[''-w'', ''-C'', ''ROMANA-INPUT'', ''-j'', ''ACCEPT'']]"
  by (simp add: lifecycle_defs FakeExecutor_def input_chain_def argv_def)

lemma TestCreateRules:
  "map argv (CreateRules (FakeExecutor [] None) [test_rule] [])
   = [[''-w'', ''-C'', ''ROMANA-INPUT'', ''-d'', ''255.255.255.255/32'', ''-p'', ''udp'',
       ''-m'', ''udp'', ''--sport'', ''68'', ''--dport'', ''67'', ''-j'', ''ACCEPT'']]"
  by (simp add: lifecycle_defs FakeExecutor_def argv_def test_rule_def)

lemma EnsureRule_present:
  "snd (ex (check_cmd rule)) = None \<Longrightarrow> EnsureRule ex rule log = log @ [check_cmd rule]"
  by (simp add: EnsureRule_def isRuleExist_def Exec_def)

lemma EnsureRule_absent:
  "snd (ex (check_cmd rule)) \<noteq> None \<Longrightarrow>
   EnsureRule ex rule log = log @ [check_cmd rule, append_cmd rule]"
  by (simp add: EnsureRule_def isRuleExist_def Exec_def)

lemma ensureChain_present:
  "snd (ex (list_cmd name)) = None \<Longrightarrow> ensureChain ex name log = log @ [list_cmd name]"
  by (simp add: ensureChain_def isChainExist_def Exec_def)

lemma ensureChain_absent:
  "snd (ex (list_cmd name)) \<noteq> None \<Longrightarrow>
   ensureChain ex name log = log @ [list_cmd name, new_cmd name]"
  by (simp add: ensureChain_def isChainExist_def Exec_def)

lemma query_cmds: "query (check_cmd rule)" "query (list_cmd name)"
  by (simp_all add: query_def check_cmd_def list_cmd_def)

lemma mutating_cmds: "\<not> mutating (check_cmd rule)" "\<not> mutating (list_cmd name)"
  by (simp_all add: mutating_def check_cmd_def list_cmd_def)

lemma CreateRules_present:
  "\<forall>c. query c \<longrightarrow> snd (ex c) = None \<Longrightarrow>
   CreateRules ex rules log = log @ map check_cmd rules"
  by (induction rules arbitrary: log) (simp_all add: CreateRules_def EnsureRule_present query_cmds)

lemma filter_mutating_checks: "filter mutating (map check_cmd rules) = []"
  by (induction rules) (simp_all add: mutating_cmds)

text \<open>
  Claim C7.  \<open>deleteIPtablesRulesBySubstring\<close>, called with the empty string, returns a
  \<open>ValidationError\<close> and performs no deletion: the rules and the command log are as before,
  whatever the executor and the state.
\<close>

theorem empty_substring_rejected:
  "deleteIPtablesRulesBySubstring ex [] st = (Some ValidationError, st)"
  by (simp add: deleteIPtablesRulesBySubstring_def)

text \<open>Without the guard, the empty substring would match every rule.\<close>

lemma contains_empty: "contains [] r"
  by (cases r) simp_all

text \<open>
  Claim C8.  In every ensure operation, an error of the existence query is treated as
  "not present" and the install command is issued: a failed \<open>-C\<close> for a rule is followed
  by \<open>-A\<close> for the same rule, a failed \<open>-L\<close> for a chain by \<open>-N\<close> for that chain; and in the
  traffic-diversion step the failed check of the diversion rule is followed by the append
  of that rule.
\<close>

theorem query_error_triggers_install:
  "(snd (ex (check_cmd rule)) \<noteq> None \<longrightarrow>
      EnsureRule ex rule log = log @ [check_cmd rule, append_cmd rule])
   \<and> (snd (ex (list_cmd name)) \<noteq> None \<longrightarrow>
      ensureChain ex name log = log @ [list_cmd name, new_cmd name])
   \<and> (snd (ex (check_cmd (divert_rule ifc c))) \<noteq> None \<longrightarrow>
      DivertTrafficToRomanaIPtablesChain ex ifc c log
        = log @ [check_cmd (divert_rule ifc c), append_cmd (divert_rule ifc c)])"
  by (simp add: EnsureRule_absent ensureChain_absent DivertTrafficToRomanaIPtablesChain_def)

text \<open>The executor of \<open>TestDivertTraffic\<close>, which answers every command with an error.\<close>

theorem query_error_triggers_install_witness:
  "snd (FakeExecutor [] (Some ''Rule not found'') (check_cmd (divert_rule ''eth0'' input_chain)))
     \<noteq> None
   \<and> snd (FakeExecutor [] (Some ''Rule not found'') (list_cmd ''ROMANA-INPUT'')) \<noteq> None
   \<and> EnsureRule (FakeExecutor [] (Some ''Rule not found'')) (divert_rule ''eth0'' input_chain) []
       = [check_cmd (divert_rule ''eth0'' input_chain), append_cmd (divert_rule ''eth0'' input_chain)]
   \<and> ensureChain (FakeExecutor [] (Some ''Rule not found'')) ''ROMANA-INPUT'' []
       = [list_cmd ''ROMANA-INPUT'', new_cmd ''ROMANA-INPUT'']
   \<and> map argv (DivertTrafficToRomanaIPtablesChain (FakeExecutor [] (Some ''Rule not found''))
        ''eth0'' input_chain [])
       = [[''-w'', ''-C'', ''INPUT'', ''-i'', ''eth0'', ''-j'', ''ROMANA-INPUT''],
          [''-A'', ''INPUT'', ''-i'', ''eth0'', ''-j'', ''ROMANA-INPUT'']]"
  using query_error_triggers_install [of "FakeExecutor [] (Some ''Rule not found'')"
      "divert_rule ''eth0'' input_chain" "[]" "''ROMANA-INPUT''" "''eth0''" input_chain]
  by (simp add: FakeExecutor_def check_cmd_def append_cmd_def divert_rule_def input_chain_def
      argv_def)


end
